theory Spec2Isabelle
  imports
    Main
    "HOL-Library.Sublist"
    "HOL-Library.Char_ord"
    "HOL-Library.List_Lexorder"
begin

section \<open>Characters and strings of the report text\<close>

text \<open>
  A Python \<open>str\<close> is a sequence of code points. A \<^typ>\<open>char\<close> stands for a code point
  below 256; the character classes of \<open>re\<close> and \<open>str.lower\<close> are written out for that
  range. Texts with code points above 255 are outside the model.
\<close>

definition code :: "char \<Rightarrow> nat" where
  "code c = of_char c"

definition is_digit :: "char \<Rightarrow> bool" where
  \<comment> \<open>\<open>\d\<close>: the decimal digits\<close>
  "is_digit c = (48 \<le> code c \<and> code c \<le> 57)"

definition is_space :: "char \<Rightarrow> bool" where
  \<comment> \<open>\<open>\s\<close>: the characters \<open>str.isspace\<close> accepts\<close>
  "is_space c = ((9 \<le> code c \<and> code c \<le> 13) \<or> (28 \<le> code c \<and> code c \<le> 32)
                 \<or> code c = 133 \<or> code c = 160)"

definition is_upper_ascii :: "char \<Rightarrow> bool" where
  "is_upper_ascii c = (65 \<le> code c \<and> code c \<le> 90)"

definition is_lower_ascii :: "char \<Rightarrow> bool" where
  "is_lower_ascii c = (97 \<le> code c \<and> code c \<le> 122)"

definition is_word :: "char \<Rightarrow> bool" where
  \<comment> \<open>\<open>\w\<close>: alphanumeric code points and the underscore\<close>
  "is_word c = (is_digit c \<or> is_upper_ascii c \<or> is_lower_ascii c \<or> code c = 95
                \<or> code c = 170 \<or> code c = 178 \<or> code c = 179 \<or> code c = 181
                \<or> code c = 185 \<or> code c = 186 \<or> (188 \<le> code c \<and> code c \<le> 190)
                \<or> (192 \<le> code c \<and> code c \<le> 214) \<or> (216 \<le> code c \<and> code c \<le> 246)
                \<or> 248 \<le> code c)"

definition set_bit5 :: "char \<Rightarrow> char" where
  \<comment> \<open>the code point plus 32, for a code point whose bit of weight 32 is clear\<close>
  "set_bit5 c = (case c of Char b0 b1 b2 b3 b4 b5 b6 b7 \<Rightarrow> Char b0 b1 b2 b3 b4 True b6 b7)"

definition lower_char :: "char \<Rightarrow> char" where
  \<comment> \<open>\<open>str.lower\<close> on one code point: the upper-case letters are 32 below their lower case\<close>
  "lower_char c =
     (if is_upper_ascii c \<or> (192 \<le> code c \<and> code c \<le> 222 \<and> code c \<noteq> 215)
      then set_bit5 c else c)"

definition lower :: "string \<Rightarrow> string" where
  "lower s = map lower_char s"

fun py_in :: "string \<Rightarrow> string \<Rightarrow> bool" where
  \<comment> \<open>\<open>needle in haystack\<close> on strings\<close>
  "py_in needle [] = (needle = [])"
| "py_in needle (c # cs) = (prefix needle (c # cs) \<or> py_in needle cs)"

definition sorted_set :: "string list \<Rightarrow> string list" where
  \<comment> \<open>\<open>sorted(s)\<close> for a set \<open>s\<close> held as a list of its elements\<close>
  "sorted_set xs = sort (remdups xs)"

section \<open>Vocabulary\<close>

definition DISEASE_KEYWORDS :: "string list" where
  "DISEASE_KEYWORDS = [''diabetes'', ''hypertension'', ''covid'', ''asthma'', ''pneumonia'',
     ''bronchitis'', ''tuberculosis'', ''cancer'', ''malaria'', ''coronary artery disease'',
     ''cardiomyopathy'', ''arthritis'', ''stroke'', ''hepatitis'', ''hiv'']"

definition SYMPTOM_KEYWORDS :: "string list" where
  "SYMPTOM_KEYWORDS = [''fever'', ''cough'', ''shortness of breath'', ''headache'', ''vomiting'',
     ''nausea'', ''dizziness'', ''fatigue'', ''chest pain'', ''abdominal pain'', ''diarrhea'',
     ''loss of taste'', ''loss of smell'', ''sore throat'', ''weakness'']"

definition MEDICATION_KEYWORDS :: "string list" where
  "MEDICATION_KEYWORDS = [''paracetamol'', ''ibuprofen'', ''metformin'', ''insulin'',
     ''amoxicillin'', ''azithromycin'', ''aspirin'', ''atorvastatin'', ''amlodipine'',
     ''lisinopril'', ''prednisone'', ''cetirizine'', ''azithromycin'']"

section \<open>Keyword search\<close>

definition add_found :: "string \<Rightarrow> string \<Rightarrow> string list \<Rightarrow> string list" where
  \<comment> \<open>one iteration of the loop: \<open>if k.lower() in lower: found.add(k)\<close>\<close>
  "add_found lower_text k found = (if py_in (lower k) lower_text then List.insert k found else found)"

definition keyword_search :: "string \<Rightarrow> string list \<Rightarrow> string list" where
  "keyword_search text keywords = sorted_set (fold (add_found (lower text)) keywords [])"

section \<open>Regular expressions\<close>

text \<open>
  The patterns of the program use a fragment of Python's \<open>re\<close>: single characters and
  character classes, concatenation, ordered alternation, greedy repetition of a character
  class, and the zero-width assertions \<open>\b\<close>, \<open>^\<close> and \<open>$\<close> (the last two only under the
  flag \<open>(?m)\<close>). A matcher state is the character before the current position (if any)
  and the text from the current position on. \<open>rmatch r s\<close> lists the states in which a
  match of \<open>r\<close> from \<open>s\<close> can end, in the order in which the backtracking matcher tries
  them; the head of the list is the match \<open>re\<close> reports.
\<close>

type_synonym mstate = "char option \<times> string"

datatype regex =
    Eps
  | Cls "char \<Rightarrow> bool"
  | Seq regex regex
  | Alt regex regex
  | Rep "char \<Rightarrow> bool" nat "nat option"
  | WordB
  | LineStart
  | LineEnd

definition newline :: char where
  "newline = CHR 0x0A"

definition below_max :: "nat \<Rightarrow> nat option \<Rightarrow> bool" where
  "below_max k hi = (case hi of None \<Rightarrow> True | Some h \<Rightarrow> k < h)"

fun reps :: "(char \<Rightarrow> bool) \<Rightarrow> nat \<Rightarrow> nat option \<Rightarrow> nat \<Rightarrow> char option \<Rightarrow> string \<Rightarrow> mstate list" where
  \<comment> \<open>greedy \<open>{lo,hi}\<close>: \<open>k\<close> characters taken so far; longer repetitions are tried first\<close>
  "reps P lo hi k prev [] = (if lo \<le> k then [(prev, [])] else [])"
| "reps P lo hi k prev (c # cs) =
     (if P c \<and> below_max k hi then reps P lo hi (Suc k) (Some c) cs else [])
     @ (if lo \<le> k then [(prev, c # cs)] else [])"

definition word_before :: "char option \<Rightarrow> bool" where
  "word_before prev = (case prev of None \<Rightarrow> False | Some c \<Rightarrow> is_word c)"

definition word_after :: "string \<Rightarrow> bool" where
  "word_after text = (case text of [] \<Rightarrow> False | c # _ \<Rightarrow> is_word c)"

definition at_line_start :: "char option \<Rightarrow> bool" where
  "at_line_start prev = (case prev of None \<Rightarrow> True | Some c \<Rightarrow> c = newline)"

definition at_line_end :: "string \<Rightarrow> bool" where
  "at_line_end text = (case text of [] \<Rightarrow> True | c # _ \<Rightarrow> c = newline)"

fun rmatch :: "regex \<Rightarrow> mstate \<Rightarrow> mstate list" where
  "rmatch Eps s = [s]"
| "rmatch (Cls P) (prev, text) =
     (case text of [] \<Rightarrow> [] | c # cs \<Rightarrow> if P c then [(Some c, cs)] else [])"
| "rmatch (Seq a b) s = concat (map (rmatch b) (rmatch a s))"
| "rmatch (Alt a b) s = rmatch a s @ rmatch b s"
| "rmatch (Rep P lo hi) (prev, text) = reps P lo hi 0 prev text"
| "rmatch WordB (prev, text) = (if word_before prev \<noteq> word_after text then [(prev, text)] else [])"
| "rmatch LineStart (prev, text) = (if at_line_start prev then [(prev, text)] else [])"
| "rmatch LineEnd (prev, text) = (if at_line_end text then [(prev, text)] else [])"

definition match_at :: "regex \<Rightarrow> char option \<Rightarrow> string \<Rightarrow> nat option" where
  \<comment> \<open>the number of characters the match starting at this position consumes\<close>
  "match_at r prev text =
     (case rmatch r (prev, text) of [] \<Rightarrow> None | (p, rest) # _ \<Rightarrow> Some (length text - length rest))"

fun search_from :: "regex \<Rightarrow> char option \<Rightarrow> string \<Rightarrow> string option" where
  \<comment> \<open>\<open>re.search(r, text).group()\<close>, \<open>None\<close> without a match\<close>
  "search_from r prev [] = (case match_at r prev [] of None \<Rightarrow> None | Some n \<Rightarrow> Some [])"
| "search_from r prev (c # cs) =
     (case match_at r prev (c # cs) of
        None \<Rightarrow> search_from r (Some c) cs
      | Some n \<Rightarrow> Some (take n (c # cs)))"

definition re_search :: "regex \<Rightarrow> string \<Rightarrow> string option" where
  "re_search r text = search_from r None text"

fun findall_from :: "regex \<Rightarrow> char option \<Rightarrow> string \<Rightarrow> string list" where
  "findall_from r prev [] = (case match_at r prev [] of None \<Rightarrow> [] | Some n \<Rightarrow> [[]])"
| "findall_from r prev (c # cs) =
     (case match_at r prev (c # cs) of
        None \<Rightarrow> findall_from r (Some c) cs
      | Some 0 \<Rightarrow> [] # findall_from r (Some c) cs
      | Some (Suc n) \<Rightarrow>
          take (Suc n) (c # cs) # findall_from r (Some (last (take (Suc n) (c # cs)))) (drop n cs))"

definition re_findall :: "regex \<Rightarrow> string \<Rightarrow> string list" where
  \<comment> \<open>\<open>re.findall\<close> for a pattern without capturing groups: the matched substrings\<close>
  "re_findall r text = findall_from r None text"

fun sub_from :: "regex \<Rightarrow> (string \<Rightarrow> string) \<Rightarrow> char option \<Rightarrow> string \<Rightarrow> string" where
  "sub_from r repl prev [] = (case match_at r prev [] of None \<Rightarrow> [] | Some n \<Rightarrow> repl [])"
| "sub_from r repl prev (c # cs) =
     (case match_at r prev (c # cs) of
        None \<Rightarrow> c # sub_from r repl (Some c) cs
      | Some 0 \<Rightarrow> repl [] @ c # sub_from r repl (Some c) cs
      | Some (Suc n) \<Rightarrow>
          repl (take (Suc n) (c # cs))
          @ sub_from r repl (Some (last (take (Suc n) (c # cs)))) (drop n cs))"

definition re_sub :: "regex \<Rightarrow> (string \<Rightarrow> string) \<Rightarrow> string \<Rightarrow> string" where
  \<comment> \<open>\<open>re.sub(r, repl, text)\<close>; \<open>repl\<close> maps the matched substring to its replacement\<close>
  "re_sub r repl text = sub_from r repl None text"

subsection \<open>Building patterns\<close>

definition chr :: "char \<Rightarrow> regex" where
  "chr c = Cls (\<lambda>x. x = c)"

definition chr_ci :: "char \<Rightarrow> regex" where
  \<comment> \<open>a literal character under \<open>(?i)\<close>\<close>
  "chr_ci c = Cls (\<lambda>x. lower_char x = lower_char c)"

definition seqs :: "regex list \<Rightarrow> regex" where
  "seqs rs = foldr Seq rs Eps"

fun alts :: "regex list \<Rightarrow> regex" where
  "alts [] = Cls (\<lambda>x. False)"
| "alts [r] = r"
| "alts (r # rs) = Alt r (alts rs)"

definition lit :: "string \<Rightarrow> regex" where
  "lit s = seqs (map chr s)"

definition lit_ci :: "string \<Rightarrow> regex" where
  "lit_ci s = seqs (map chr_ci s)"

definition opt :: "regex \<Rightarrow> regex" where
  \<comment> \<open>greedy \<open>(?:r)?\<close>\<close>
  "opt r = Alt r Eps"

definition any_char :: "char \<Rightarrow> bool" where
  \<comment> \<open>\<open>.\<close> without \<open>re.DOTALL\<close>\<close>
  "any_char c = (c \<noteq> newline)"

definition non_space :: "char \<Rightarrow> bool" where
  "non_space c = (\<not> is_space c)"

definition is_alpha_ascii :: "char \<Rightarrow> bool" where
  "is_alpha_ascii c = (is_upper_ascii c \<or> is_lower_ascii c)"

definition one_of :: "string \<Rightarrow> char \<Rightarrow> bool" where
  "one_of s c = (c \<in> set s)"

section \<open>Patterns of the program\<close>

definition month_names :: "string list" where
  "month_names = [''Jan'', ''Feb'', ''Mar'', ''Apr'', ''May'', ''Jun'', ''Jul'', ''Aug'', ''Sep'',
     ''Oct'', ''Nov'', ''Dec'']"

definition DATE_PATTERN :: regex where
  "DATE_PATTERN = seqs [WordB,
     alts [
       seqs [Rep is_digit 1 (Some 2), Cls (one_of ''/-''), Rep is_digit 1 (Some 2),
             Cls (one_of ''/-''), Rep is_digit 2 (Some 4)],
       seqs [Rep is_digit 4 (Some 4), chr CHR ''-'', Rep is_digit 2 (Some 2), chr CHR ''-'',
             Rep is_digit 2 (Some 2)],
       seqs [alts (map lit month_names), Rep is_lower_ascii 0 None, Rep is_space 1 None,
             Rep is_digit 1 (Some 2), Rep (one_of '','') 0 (Some 1), Rep is_space 1 None,
             Rep is_digit 4 (Some 4)]],
     WordB]"

definition BP_PATTERN :: regex where
  \<comment> \<open>used with \<open>flags=re.IGNORECASE\<close>\<close>
  "BP_PATTERN = seqs [WordB, lit_ci ''BP'', Rep (one_of '': '') 0 None,
     Rep is_digit 2 (Some 3), chr CHR ''/'', Rep is_digit 2 (Some 3), WordB]"

definition HR_PATTERN :: regex where
  \<comment> \<open>used with \<open>flags=re.IGNORECASE\<close>\<close>
  "HR_PATTERN = seqs [WordB,
     alts [seqs [lit_ci ''HR'', Rep (one_of '': '') 0 None, Rep is_digit 2 (Some 3)],
           seqs [lit_ci ''Heart rate'', Rep (one_of '': '') 0 None, Rep is_digit 2 (Some 3)]],
     WordB]"

definition dosage_units :: "string list" where
  "dosage_units = [''mg'', ''MG'', ''ml'', ''mL'', ''g'', ''units'', ''IU'']"

definition DOSAGE_PATTERN :: regex where
  "DOSAGE_PATTERN = seqs [WordB, Rep is_digit 1 None, alts (map lit dosage_units), WordB]"

definition NAME_LINE_PATTERN :: regex where
  "NAME_LINE_PATTERN = seqs [LineStart, Rep is_space 0 None,
     alts [lit_ci ''patient name'', lit_ci ''name''], Rep is_space 0 None,
     Cls (one_of '':-''), Rep is_space 0 None, Rep any_char 1 None, LineEnd]"

definition phone_sep :: "char \<Rightarrow> bool" where
  \<comment> \<open>\<open>[-.\s]\<close>\<close>
  "phone_sep c = (c = CHR ''-'' \<or> c = CHR ''.'' \<or> is_space c)"

definition PHONE_PATTERN :: regex where
  "PHONE_PATTERN = seqs [WordB,
     opt (seqs [Rep (one_of ''+'') 0 (Some 1), Rep is_digit 1 (Some 3), Rep phone_sep 0 (Some 1)]),
     alts [Rep is_digit 10 (Some 10),
           seqs [Rep is_digit 3 (Some 3), Cls phone_sep, Rep is_digit 3 (Some 3), Cls phone_sep,
                 Rep is_digit 4 (Some 4)]],
     WordB]"

definition email_local :: "char \<Rightarrow> bool" where
  \<comment> \<open>\<open>[A-Za-z0-9._%+-]\<close>\<close>
  "email_local c = (is_alpha_ascii c \<or> is_digit c \<or> one_of ''._%+-'' c)"

definition email_domain :: "char \<Rightarrow> bool" where
  \<comment> \<open>\<open>[A-Za-z0-9.-]\<close>\<close>
  "email_domain c = (is_alpha_ascii c \<or> is_digit c \<or> one_of ''.-'' c)"

definition EMAIL_PATTERN :: regex where
  "EMAIL_PATTERN = seqs [WordB, Rep email_local 1 None, chr CHR ''@'', Rep email_domain 1 None,
     chr CHR ''.'', Rep is_alpha_ascii 2 None, WordB]"

definition ID_LINE_PATTERN :: regex where
  \<comment> \<open>the pattern written inline in \<open>deidentify_text\<close>\<close>
  "ID_LINE_PATTERN = seqs [LineStart, Rep is_space 0 None,
     alts [lit_ci ''mrn'', lit_ci ''id'', lit_ci ''patient id'', lit_ci ''hospital id''],
     Rep is_space 0 None, Cls (one_of '':-''), Rep is_space 0 None, Rep non_space 1 None,
     Rep is_space 0 None, LineEnd]"

section \<open>Utility functions\<close>

fun split_on :: "char \<Rightarrow> string \<Rightarrow> string list" where
  \<comment> \<open>\<open>s.split(sep)\<close> for a one-character separator; the result is never empty\<close>
  "split_on sep [] = [[]]"
| "split_on sep (c # cs) =
     (if c = sep then [] # split_on sep cs
      else (case split_on sep cs of [] \<Rightarrow> [[c]] | p # ps \<Rightarrow> (c # p) # ps))"

definition first_piece :: "char \<Rightarrow> string \<Rightarrow> string" where
  \<comment> \<open>\<open>s.split(sep)[0]\<close>\<close>
  "first_piece sep s = (case split_on sep s of [] \<Rightarrow> [] | p # _ \<Rightarrow> p)"

definition last_piece :: "char \<Rightarrow> string \<Rightarrow> string" where
  \<comment> \<open>\<open>s.split(sep)[-1]\<close>\<close>
  "last_piece sep s = (case rev (split_on sep s) of [] \<Rightarrow> [] | p # _ \<Rightarrow> p)"

definition redact_id :: "string \<Rightarrow> string" where
  \<comment> \<open>\<open>lambda m: m.group(0).split(":")[0] + ": [REDACTED]"\<close>\<close>
  "redact_id m = first_piece CHR '':'' m @ '': [REDACTED]''"

definition deidentify_text :: "string \<Rightarrow> string" where
  "deidentify_text text =
     (let t = re_sub NAME_LINE_PATTERN (\<lambda>m. ''Patient Name: [REDACTED]'') text;
          t = re_sub PHONE_PATTERN (\<lambda>m. ''[REDACTED_PHONE]'') t;
          t = re_sub EMAIL_PATTERN (\<lambda>m. ''[REDACTED_EMAIL]'') t;
          t = re_sub ID_LINE_PATTERN redact_id t
      in t)"

definition find_dates :: "string \<Rightarrow> string list" where
  "find_dates text = sorted_set (re_findall DATE_PATTERN text)"

definition find_bp :: "string \<Rightarrow> string list" where
  "find_bp text = sorted_set (re_findall BP_PATTERN text)"

definition find_hr :: "string \<Rightarrow> string list" where
  "find_hr text = sorted_set (re_findall HR_PATTERN text)"

definition find_medications :: "string \<Rightarrow> string list" where
  "find_medications text =
     (let meds = fold (add_found (lower text)) MEDICATION_KEYWORDS [];
          dosages = re_findall DOSAGE_PATTERN text
      in sorted_set (fold List.insert dosages meds))"

section \<open>Risk hints\<close>

datatype py_error = ValueError

definition strip :: "string \<Rightarrow> string" where
  \<comment> \<open>the whitespace \<open>int\<close> ignores at both ends of its argument\<close>
  "strip s = rev (dropWhile is_space (rev (dropWhile is_space s)))"

fun digit_groups :: "bool \<Rightarrow> string \<Rightarrow> bool" where
  \<comment> \<open>digits with single underscores between them; the flag says that a digit came last\<close>
  "digit_groups after_digit [] = after_digit"
| "digit_groups after_digit (c # cs) =
     (if is_digit c then digit_groups True cs
      else if c = CHR ''_'' \<and> after_digit then digit_groups False cs
      else False)"

definition digits_value :: "string \<Rightarrow> int" where
  "digits_value ds = foldl (\<lambda>acc c. 10 * acc + (int (code c) - 48)) 0 (filter is_digit ds)"

definition py_int :: "string \<Rightarrow> py_error + int" where
  \<comment> \<open>\<open>int(s)\<close> in base 10\<close>
  "py_int s =
     (case strip s of
        [] \<Rightarrow> Inl ValueError
      | c # cs \<Rightarrow>
          if c = CHR ''-'' then (if digit_groups False cs then Inr (- digits_value cs) else Inl ValueError)
          else if c = CHR ''+'' then (if digit_groups False cs then Inr (digits_value cs) else Inl ValueError)
          else (if digit_groups False (c # cs) then Inr (digits_value (c # cs)) else Inl ValueError))"

text \<open>
  The hint messages, in the order of the rules:
  \<^item> \<open>RespiratoryInfection\<close>: "Possible Respiratory Infection - urgent review advised."
  \<^item> \<open>HighBloodPressure\<close>: "High Blood Pressure detected (Hypertension risk)."
  \<^item> \<open>ElevatedHeartRate\<close>: "Elevated Heart Rate (Tachycardia)."
  \<^item> \<open>DiabetesMonitor\<close>: "Patient has Diabetes - monitor sugar levels closely."
  \<^item> \<open>MultipleSymptoms\<close>: "Multiple symptoms present - may require urgent triage."
\<close>

datatype hint =
  RespiratoryInfection | HighBloodPressure | ElevatedHeartRate | DiabetesMonitor | MultipleSymptoms

fun any_bp_high :: "string list \<Rightarrow> py_error + bool" where
  \<comment> \<open>\<open>any("/" in b and int(b.split("/")[0].split(":")[-1]) >= 140 for b in bp)\<close>\<close>
  "any_bp_high [] = Inr False"
| "any_bp_high (b # bs) =
     (if py_in ''/'' b then
        (case py_int (last_piece CHR '':'' (first_piece CHR ''/'' b)) of
           Inl e \<Rightarrow> Inl e
         | Inr n \<Rightarrow> if 140 \<le> n then Inr True else any_bp_high bs)
      else any_bp_high bs)"

fun any_hr_high :: "string list \<Rightarrow> py_error + bool" where
  \<comment> \<open>\<open>any(re.search(r"\d+", h) and int(re.search(r"\d+", h).group()) > 100 for h in hr)\<close>;
      both searches find the same match\<close>
  "any_hr_high [] = Inr False"
| "any_hr_high (h # hs) =
     (case re_search (Rep is_digit 1 None) h of
        None \<Rightarrow> any_hr_high hs
      | Some m \<Rightarrow>
          (case py_int m of
             Inl e \<Rightarrow> Inl e
           | Inr n \<Rightarrow> if 100 < n then Inr True else any_hr_high hs))"

definition append_if :: "bool \<Rightarrow> hint \<Rightarrow> hint list \<Rightarrow> hint list" where
  \<comment> \<open>\<open>if cond: hints.append(h)\<close>\<close>
  "append_if cond h hints = (if cond then hints @ [h] else hints)"

definition bp_rule :: "string list \<Rightarrow> string list \<Rightarrow> py_error + bool" where
  \<comment> \<open>\<open>"hypertension" in diseases or any(...)\<close>: the \<open>or\<close> skips the blood-pressure entries\<close>
  "bp_rule diseases bp = (if ''hypertension'' \<in> set diseases then Inr True else any_bp_high bp)"

definition generate_risk_hints ::
  "string list \<Rightarrow> string list \<Rightarrow> string list \<Rightarrow> string list \<Rightarrow> py_error + hint list" where
  "generate_risk_hints diseases symptoms bp hr =
     (let hints = append_if (''shortness of breath'' \<in> set symptoms \<and> ''fever'' \<in> set symptoms)
                    RespiratoryInfection []
      in case bp_rule diseases bp of
           Inl e \<Rightarrow> Inl e
         | Inr bp_high \<Rightarrow>
             (let hints = append_if bp_high HighBloodPressure hints
              in case any_hr_high hr of
                   Inl e \<Rightarrow> Inl e
                 | Inr hr_high \<Rightarrow>
                     (let hints = append_if hr_high ElevatedHeartRate hints;
                          hints = append_if (''diabetes'' \<in> set diseases) DiabetesMonitor hints;
                          hints = append_if (3 \<le> length symptoms) MultipleSymptoms hints
                      in Inr hints)))"

section \<open>Highlighting\<close>

definition quote :: char where
  "quote = CHR 0x27"

definition escape_html :: "string \<Rightarrow> string" where
  "escape_html text =
     (let esc_text = re_sub (chr CHR ''&'') (\<lambda>m. ''&amp;'') text;
          esc_text = re_sub (chr CHR ''<'') (\<lambda>m. ''&lt;'') esc_text;
          esc_text = re_sub (chr CHR ''>'') (\<lambda>m. ''&gt;'') esc_text
      in esc_text)"

definition span_open :: "string \<Rightarrow> string" where
  "span_open css_class = ''<span class='' @ [quote] @ css_class @ [quote] @ ''>''"

definition span_close :: string where
  "span_close = ''</span>''"

definition term_pattern :: "string \<Rightarrow> regex" where
  \<comment> \<open>\<open>(?i)\b(term)\b\<close> with the term escaped\<close>
  "term_pattern term = seqs [WordB, lit_ci term, WordB]"

definition wrap_term :: "string \<Rightarrow> string \<Rightarrow> string \<Rightarrow> string" where
  \<comment> \<open>one iteration of the loop of \<open>wrap_terms\<close>\<close>
  "wrap_term css_class term ht =
     (if term \<noteq> [] then re_sub (term_pattern term) (\<lambda>m. span_open css_class @ m @ span_close) ht
      else ht)"

definition longest_first :: "string list \<Rightarrow> string list" where
  \<comment> \<open>\<open>sorted(set(terms), key=lambda x: -len(x))\<close>; the set is iterated in list order\<close>
  "longest_first terms = sort_key (\<lambda>x. - int (length x)) (remdups terms)"

definition wrap_terms :: "string \<Rightarrow> string list \<Rightarrow> string \<Rightarrow> string" where
  "wrap_terms ht terms css_class = fold (wrap_term css_class) (longest_first terms) ht"

definition legend :: string where
  "legend = ''<div class='' @ [quote] @ ''legend'' @ [quote] @ ''><div style='' @ [quote]
     @ ''background:#fdecea'' @ [quote] @ ''>Disease</div><div style='' @ [quote]
     @ ''background:#fff4e5'' @ [quote] @ ''>Symptom</div><div style='' @ [quote]
     @ ''background:#e8f8f5'' @ [quote] @ ''>Medication</div></div>''"

definition highlight_body :: "string \<Rightarrow> string list \<Rightarrow> string list \<Rightarrow> string list \<Rightarrow> string" where
  \<comment> \<open>the marked-up text between \<open><pre>\<close> and \<open></pre>\<close>\<close>
  "highlight_body text diseases symptoms meds =
     (let html = wrap_terms (escape_html text) diseases ''disease'';
          html = wrap_terms html symptoms ''symptom'';
          html = wrap_terms html meds ''med''
      in html)"

definition highlight :: "string \<Rightarrow> string list \<Rightarrow> string list \<Rightarrow> string list \<Rightarrow> string" where
  "highlight text diseases symptoms meds =
     legend @ ''<pre>'' @ highlight_body text diseases symptoms meds @ ''</pre>''"

section \<open>The analysis loop\<close>

record options =
  deid :: bool
  use_spacy :: bool
  nlp :: "(string \<Rightarrow> (string \<times> string) list) option"
    \<comment> \<open>the loaded spaCy model; \<open>None\<close> when \<open>SPACY_AVAILABLE\<close> is false\<close>

definition extract_with_spacy :: "options \<Rightarrow> string \<Rightarrow> (string \<times> string) list" where
  "extract_with_spacy opts text = (case nlp opts of None \<Rightarrow> [] | Some f \<Rightarrow> f text)"

record result =
  filename :: string
  dates :: "string list"
  bp :: "string list"
  hr :: "string list"
  diseases :: "string list"
  symptoms :: "string list"
  medications :: "string list"
  spacy_entities :: "(string \<times> string) list"
  risk_hints :: "hint list"
  raw :: string

record loop_state =
  aggregated_results :: "result list"
  all_dates :: "string list"
  counts :: "string \<Rightarrow> nat"
  highlighted_docs :: "string \<rightharpoonup> string"

definition initial_state :: loop_state where
  "initial_state = \<lparr>aggregated_results = [], all_dates = [], counts = (\<lambda>k. 0),
     highlighted_docs = Map.empty\<rparr>"

definition add_count :: "string \<Rightarrow> nat \<Rightarrow> (string \<Rightarrow> nat) \<Rightarrow> (string \<Rightarrow> nat)" where
  \<comment> \<open>\<open>counts[key] += n\<close> on a \<open>Counter\<close>\<close>
  "add_count key n c = c(key := c key + n)"

definition input_text :: "options \<Rightarrow> string \<Rightarrow> string" where
  \<comment> \<open>\<open>deidentify_text(raw_text) if deid else raw_text\<close>\<close>
  "input_text opts raw_text = (if deid opts then deidentify_text raw_text else raw_text)"

definition loop_body :: "options \<Rightarrow> string \<times> string \<Rightarrow> loop_state \<Rightarrow> py_error + loop_state" where
  "loop_body opts doc st =
     (let fname = fst doc; raw_text = snd doc;
          text = input_text opts raw_text;
          ds = find_dates text; b = find_bp text; h = find_hr text;
          dis = keyword_search text DISEASE_KEYWORDS;
          sym = keyword_search text SYMPTOM_KEYWORDS;
          meds = find_medications text;
          spacy_ents = (if use_spacy opts \<and> nlp opts \<noteq> None then extract_with_spacy opts text else [])
      in case generate_risk_hints dis sym b h of
           Inl e \<Rightarrow> Inl e
         | Inr hints \<Rightarrow>
             Inr \<lparr>aggregated_results = aggregated_results st @
                    [\<lparr>filename = fname, dates = ds, bp = b, hr = h, diseases = dis, symptoms = sym,
                      medications = meds, spacy_entities = spacy_ents, risk_hints = hints,
                      raw = text\<rparr>],
                  all_dates = all_dates st @ ds,
                  counts = add_count ''medications'' (length meds)
                             (add_count ''symptoms'' (length sym)
                               (add_count ''diseases'' (length dis) (counts st))),
                  highlighted_docs = (highlighted_docs st)(fname \<mapsto> highlight text dis sym meds)\<rparr>)"

fun analysis_loop :: "options \<Rightarrow> (string \<times> string) list \<Rightarrow> loop_state \<Rightarrow> py_error + loop_state" where
  \<comment> \<open>\<open>for fname, raw_text in report_texts: ...\<close>; an exception leaves the loop\<close>
  "analysis_loop opts [] st = Inr st"
| "analysis_loop opts (doc # docs) st =
     (case loop_body opts doc st of Inl e \<Rightarrow> Inl e | Inr st' \<Rightarrow> analysis_loop opts docs st')"

definition dates_found :: "options \<Rightarrow> (string \<times> string) list \<Rightarrow> py_error + nat" where
  \<comment> \<open>the metric "Dates Found": \<open>len(all_dates)\<close> after the loop\<close>
  "dates_found opts docs =
     (case analysis_loop opts docs initial_state of
        Inl e \<Rightarrow> Inl e
      | Inr st \<Rightarrow> Inr (length (all_dates st)))"

definition shown_markup :: "options \<Rightarrow> (string \<times> string) list \<Rightarrow> string \<Rightarrow> py_error + string option" where
  \<comment> \<open>the markup shown under a document: \<open>highlighted_docs[r["filename"]]\<close> after the loop\<close>
  "shown_markup opts docs fname =
     (case analysis_loop opts docs initial_state of
        Inl e \<Rightarrow> Inl e
      | Inr st \<Rightarrow> Inr (highlighted_docs st fname))"

subsection \<open>The outputs for one document, as functions of its text\<close>

text \<open>
  The per-document outputs written as functions of the analysed text alone; the loop body is
  compared with them below.
\<close>

definition text_hints :: "string \<Rightarrow> py_error + hint list" where
  "text_hints t = generate_risk_hints (keyword_search t DISEASE_KEYWORDS)
     (keyword_search t SYMPTOM_KEYWORDS) (find_bp t) (find_hr t)"

definition text_markup :: "string \<Rightarrow> string" where
  "text_markup t = highlight t (keyword_search t DISEASE_KEYWORDS)
     (keyword_search t SYMPTOM_KEYWORDS) (find_medications t)"

definition text_signals ::
  "string \<Rightarrow> string list \<times> string list \<times> string list \<times> string list \<times> string list \<times> string list" where
  "text_signals t = (find_dates t, find_bp t, find_hr t, keyword_search t DISEASE_KEYWORDS,
     keyword_search t SYMPTOM_KEYWORDS, find_medications t)"

definition signals ::
  "result \<Rightarrow> string list \<times> string list \<times> string list \<times> string list \<times> string list \<times> string list" where
  "signals r = (dates r, bp r, hr r, diseases r, symptoms r, medications r)"

definition default_options :: options where
  \<comment> \<open>the page as it loads without spaCy: redaction on\<close>
  "default_options = \<lparr>deid = True, use_spacy = False, nlp = None\<rparr>"

subsection \<open>Matches described by the text around them\<close>

definition after :: "char option \<Rightarrow> string \<Rightarrow> char option" where
  \<comment> \<open>the character before the position reached by reading \<open>w\<close>\<close>
  "after prev w = (if w = [] then prev else Some (last w))"

definition ends_with_word :: "string \<Rightarrow> bool" where
  "ends_with_word pre = (pre \<noteq> [] \<and> is_word (last pre))"

definition dosage_token :: "string \<Rightarrow> bool" where
  \<comment> \<open>one or more digits followed by a unit, in one of the listed spellings\<close>
  "dosage_token w = (takeWhile is_digit w \<noteq> [] \<and> dropWhile is_digit w \<in> set dosage_units)"

definition occurrences :: "char option \<Rightarrow> string \<Rightarrow> string set" where
  \<comment> \<open>the dosage tokens of a text between word boundaries; \<open>p\<close> is the character before the text\<close>
  "occurrences p t = {w. \<exists>pre post. t = pre @ w @ post \<and> dosage_token w
      \<and> \<not> word_before (after p pre) \<and> \<not> word_after post}"

section \<open>Basic facts\<close>

lemma py_in_sublist: "py_in xs ys \<longleftrightarrow> sublist xs ys"
  by (induction ys) (auto simp: sublist_Cons_right)

lemma set_fold_add_found:
  "set (fold (add_found lt) ks acc) = set acc \<union> {k \<in> set ks. py_in (lower k) lt}"
  by (induction ks arbitrary: acc) (auto simp: add_found_def)

lemma set_sorted_set: "set (sorted_set xs) = set xs"
  by (simp add: sorted_set_def)

lemma sorted_sorted_set: "sorted (sorted_set xs)"
  by (simp add: sorted_set_def)

lemma distinct_sorted_set: "distinct (sorted_set xs)"
  by (simp add: sorted_set_def)

section \<open>Keyword search is sound and complete\<close>

text \<open>
  C4. For every text \<open>t\<close> and keyword list, the result of \<open>keyword_search\<close> holds exactly
  the keywords \<open>k\<close> of the list whose lower-case form is a substring of the lower-case text,
  and it is the sorted list of these terms, each once.
\<close>

theorem keyword_search_sound_complete:
  "set (keyword_search t keywords) = {k \<in> set keywords. sublist (lower k) (lower t)}
   \<and> sorted (keyword_search t keywords) \<and> distinct (keyword_search t keywords)"
  by (simp add: keyword_search_def set_sorted_set sorted_sorted_set distinct_sorted_set
      set_fold_add_found py_in_sublist)

section \<open>Facts about the matcher\<close>

lemma after_Nil [simp]: "after p [] = p"
  by (simp add: after_def)

lemma after_Cons [simp]: "after p (c # w) = after (Some c) w"
  by (simp add: after_def)

lemma after_append [simp]: "after p (u @ w) = after (after p u) w"
  by (induction u arbitrary: p) simp_all

lemma set_rmatch_Seq:
  "set (rmatch (Seq a b) s) = (\<Union>s' \<in> set (rmatch a s). set (rmatch b s'))"
  by simp

lemma set_reps:
  "set (reps P lo None k p t) =
     {(after p (take j t), drop j t) | j. j \<le> length (takeWhile P t) \<and> lo \<le> k + j}"
proof (induction t arbitrary: k p)
  case Nil
  then show ?case by (auto simp: below_max_def)
next
  case (Cons c cs)
  show ?case
  proof (cases "P c")
    case False
    then show ?thesis by (auto simp: below_max_def)
  next
    case True
    have "set (reps P lo None k p (c # cs)) =
        set (reps P lo None (Suc k) (Some c) cs) \<union> (if lo \<le> k then {(p, c # cs)} else {})"
      using True by (simp add: below_max_def)
    also have "\<dots> = {(after (Some c) (take j cs), drop j cs) | j.
          j \<le> length (takeWhile P cs) \<and> lo \<le> Suc k + j}
        \<union> (if lo \<le> k then {(p, c # cs)} else {})"
      by (simp only: Cons.IH)
    also have "\<dots> = {(after p (take j (c # cs)), drop j (c # cs)) | j.
          j \<le> length (takeWhile P (c # cs)) \<and> lo \<le> k + j}" (is "?L = ?R")
    proof (intro set_eqI iffI)
      fix x assume "x \<in> ?L"
      then consider j where "x = (after (Some c) (take j cs), drop j cs)"
          "j \<le> length (takeWhile P cs)" "lo \<le> Suc k + j"
        | "lo \<le> k" "x = (p, c # cs)"
        by (auto split: if_splits)
      then show "x \<in> ?R"
      proof cases
        case 1
        then show ?thesis
          using True by (intro CollectI exI [of _ "Suc j"]) simp
      next
        case 2
        then show ?thesis
          by (intro CollectI exI [of _ 0]) simp
      qed
    next
      fix x assume "x \<in> ?R"
      then obtain j where j: "x = (after p (take j (c # cs)), drop j (c # cs))"
        "j \<le> length (takeWhile P (c # cs))" "lo \<le> k + j"
        by blast
      show "x \<in> ?L"
      proof (cases j)
        case 0
        with j show ?thesis by simp
      next
        case (Suc i)
        with j True show ?thesis by auto
      qed
    qed
    finally show ?thesis .
  qed
qed


lemma rmatch_lit:
  "rmatch (lit u) (p, t) = (if prefix u t then [(after p u, drop (length u) t)] else [])"
proof (induction u arbitrary: p t)
  case Nil
  then show ?case by (simp add: lit_def seqs_def)
next
  case (Cons c u)
  have step: "rmatch (lit (c # u)) (p, t) = concat (map (rmatch (lit u)) (rmatch (chr c) (p, t)))"
    by (simp add: lit_def seqs_def)
  show ?case
  proof (cases t)
    case Nil
    then show ?thesis unfolding step by (simp add: chr_def)
  next
    case (Cons d ds)
    then show ?thesis
      unfolding step by (simp add: chr_def Cons.IH)
  qed
qed

lemma rmatch_lit_ci:
  "rmatch (lit_ci u) (p, t) =
     (if length u \<le> length t \<and> lower (take (length u) t) = lower u
      then [(after p (take (length u) t), drop (length u) t)] else [])"
proof (induction u arbitrary: p t)
  case Nil
  then show ?case by (simp add: lit_ci_def seqs_def)
next
  case (Cons c u)
  have step: "rmatch (lit_ci (c # u)) (p, t) = concat (map (rmatch (lit_ci u)) (rmatch (chr_ci c) (p, t)))"
    by (simp add: lit_ci_def seqs_def)
  show ?case
  proof (cases t)
    case Nil
    then show ?thesis unfolding step by (simp add: chr_ci_def)
  next
    case (Cons d ds)
    then show ?thesis
      unfolding step by (simp add: chr_ci_def Cons.IH lower_def)
  qed
qed

lemma set_rmatch_alts: "set (rmatch (alts rs) s) = (\<Union>r \<in> set rs. set (rmatch r s))"
proof (induction rs rule: alts.induct)
  case 1
  then show ?case by (cases s) (simp split: list.splits)
next
  case (2 r)
  then show ?case by simp
next
  case (3 r v va)
  then show ?case by simp
qed

lemma take_takeWhile_all:
  "j \<le> length (takeWhile P t) \<Longrightarrow> \<forall>c \<in> set (take j t). P c"
proof (induction t arbitrary: j)
  case Nil
  then show ?case by simp
next
  case (Cons c cs)
  then show ?case
    by (cases j) (auto split: if_splits)
qed

lemma in_rmatch_WordB:
  "s' \<in> set (rmatch WordB (p, t)) \<longleftrightarrow> s' = (p, t) \<and> word_before p \<noteq> word_after t"
  by auto

lemma in_rmatch_Eps: "s' \<in> set (rmatch Eps s) \<longleftrightarrow> s' = s"
  by auto

lemma in_rmatch_Seq:
  "s'' \<in> set (rmatch (Seq a b) s) \<longleftrightarrow> (\<exists>p1 t1. (p1, t1) \<in> set (rmatch a s) \<and> s'' \<in> set (rmatch b (p1, t1)))"
  by auto

lemma in_rmatch_Rep:
  "(p', r) \<in> set (rmatch (Rep P lo None) (p, t)) \<longleftrightarrow>
     (\<exists>j. j \<le> length (takeWhile P t) \<and> lo \<le> j \<and> p' = after p (take j t) \<and> r = drop j t)"
  by (auto simp: set_reps)

lemma in_rmatch_alts_lit:
  "(p', r) \<in> set (rmatch (alts (map lit us)) (p, t)) \<longleftrightarrow>
     (\<exists>u \<in> set us. prefix u t \<and> p' = after p u \<and> r = drop (length u) t)"
  by (auto simp: set_rmatch_alts rmatch_lit split: if_splits)

section \<open>Evaluating the definitions\<close>

lemmas char_defs = code_def is_digit_def is_space_def is_upper_ascii_def is_lower_ascii_def
  is_word_def set_bit5_def lower_char_def lower_def newline_def quote_def any_char_def non_space_def
  is_alpha_ascii_def one_of_def phone_sep_def email_local_def email_domain_def

lemmas regex_defs = below_max_def word_before_def word_after_def at_line_start_def at_line_end_def
  match_at_def re_search_def re_findall_def re_sub_def chr_def chr_ci_def seqs_def lit_def
  lit_ci_def opt_def

lemmas pattern_defs = month_names_def dosage_units_def DATE_PATTERN_def BP_PATTERN_def HR_PATTERN_def
  DOSAGE_PATTERN_def NAME_LINE_PATTERN_def PHONE_PATTERN_def EMAIL_PATTERN_def ID_LINE_PATTERN_def
  term_pattern_def

lemmas eval_defs = char_defs regex_defs pattern_defs sorted_set_def add_found_def keyword_search_def
  first_piece_def last_piece_def redact_id_def deidentify_text_def find_dates_def find_bp_def
  find_hr_def find_medications_def strip_def digits_value_def py_int_def append_if_def bp_rule_def
  generate_risk_hints_def escape_html_def span_open_def span_close_def wrap_term_def
  longest_first_def wrap_terms_def legend_def highlight_body_def highlight_def
  DISEASE_KEYWORDS_def SYMPTOM_KEYWORDS_def MEDICATION_KEYWORDS_def Let_def

section \<open>The loop body and the per-text functions\<close>

lemma loop_body_unfold:
  "loop_body opts (fname, raw_text) st =
     (case text_hints (input_text opts raw_text) of
        Inl e \<Rightarrow> Inl e
      | Inr hints \<Rightarrow>
          Inr \<lparr>aggregated_results = aggregated_results st @
                 [\<lparr>filename = fname, dates = find_dates (input_text opts raw_text),
                   bp = find_bp (input_text opts raw_text), hr = find_hr (input_text opts raw_text),
                   diseases = keyword_search (input_text opts raw_text) DISEASE_KEYWORDS,
                   symptoms = keyword_search (input_text opts raw_text) SYMPTOM_KEYWORDS,
                   medications = find_medications (input_text opts raw_text),
                   spacy_entities =
                     (if use_spacy opts \<and> nlp opts \<noteq> None
                      then extract_with_spacy opts (input_text opts raw_text) else []),
                   risk_hints = hints, raw = input_text opts raw_text\<rparr>],
               all_dates = all_dates st @ find_dates (input_text opts raw_text),
               counts = add_count ''medications'' (length (find_medications (input_text opts raw_text)))
                          (add_count ''symptoms''
                            (length (keyword_search (input_text opts raw_text) SYMPTOM_KEYWORDS))
                            (add_count ''diseases''
                              (length (keyword_search (input_text opts raw_text) DISEASE_KEYWORDS))
                              (counts st))),
               highlighted_docs =
                 (highlighted_docs st)(fname \<mapsto> text_markup (input_text opts raw_text))\<rparr>)"
  unfolding loop_body_def text_hints_def text_markup_def Let_def fst_conv snd_conv
  by (rule refl)

lemma loop_body_all_dates:
  "loop_body opts doc st = Inr st' \<Longrightarrow>
   all_dates st' = all_dates st @ find_dates (input_text opts (snd doc))"
  by (cases doc) (auto simp: loop_body_unfold split: sum.splits)

lemma loop_body_highlighted_docs:
  "loop_body opts doc st = Inr st' \<Longrightarrow>
   highlighted_docs st' = (highlighted_docs st)(fst doc \<mapsto> text_markup (input_text opts (snd doc)))"
  by (cases doc) (auto simp: loop_body_unfold split: sum.splits)

lemma loop_body_results:
  "loop_body opts doc st = Inr st' \<Longrightarrow>
   \<exists>r. aggregated_results st' = aggregated_results st @ [r]
     \<and> signals r = text_signals (input_text opts (snd doc))
     \<and> Inr (risk_hints r) = text_hints (input_text opts (snd doc))
     \<and> filename r = fst doc"
  by (cases doc) (auto simp: loop_body_unfold signals_def text_signals_def split: sum.splits)

lemma loop_body_succeeds:
  "text_hints (input_text opts (snd doc)) = Inr hints \<Longrightarrow> \<exists>st'. loop_body opts doc st = Inr st'"
  by (cases doc) (simp add: loop_body_unfold)

lemma analysis_loop_all_dates:
  "analysis_loop opts docs st = Inr st' \<Longrightarrow>
   all_dates st' = all_dates st @ concat (map (\<lambda>doc. find_dates (input_text opts (snd doc))) docs)"
proof (induction docs arbitrary: st)
  case Nil
  then show ?case by simp
next
  case (Cons doc docs)
  then obtain st1 where body: "loop_body opts doc st = Inr st1"
    and rest: "analysis_loop opts docs st1 = Inr st'"
    by (auto split: sum.splits)
  from Cons.IH [OF rest] loop_body_all_dates [OF body] show ?case
    by simp
qed

lemma analysis_loop_results:
  "analysis_loop opts docs st = Inr st' \<Longrightarrow>
   \<exists>rs. aggregated_results st' = aggregated_results st @ rs
     \<and> map signals rs = map (\<lambda>doc. text_signals (input_text opts (snd doc))) docs
     \<and> map (\<lambda>r. Inr (risk_hints r)) rs = map (\<lambda>doc. text_hints (input_text opts (snd doc))) docs
     \<and> map filename rs = map fst docs"
proof (induction docs arbitrary: st)
  case Nil
  then show ?case by simp
next
  case (Cons doc docs)
  then obtain st1 where body: "loop_body opts doc st = Inr st1"
    and rest: "analysis_loop opts docs st1 = Inr st'"
    by (auto split: sum.splits)
  from loop_body_results [OF body] obtain r where r:
    "aggregated_results st1 = aggregated_results st @ [r]"
    "signals r = text_signals (input_text opts (snd doc))"
    "Inr (risk_hints r) = text_hints (input_text opts (snd doc))"
    "filename r = fst doc"
    by blast
  from Cons.IH [OF rest] obtain rs where rs:
    "aggregated_results st' = aggregated_results st1 @ rs"
    "map signals rs = map (\<lambda>doc. text_signals (input_text opts (snd doc))) docs"
    "map (\<lambda>r. Inr (risk_hints r)) rs = map (\<lambda>doc. text_hints (input_text opts (snd doc))) docs"
    "map filename rs = map fst docs"
    by blast
  show ?case
    by (rule exI [of _ "r # rs"]) (simp add: r rs)
qed

lemma analysis_loop_succeeds:
  "\<forall>doc \<in> set docs. \<exists>hints. text_hints (input_text opts (snd doc)) = Inr hints \<Longrightarrow>
   \<exists>st'. analysis_loop opts docs st = Inr st'"
proof (induction docs arbitrary: st)
  case Nil
  then show ?case by simp
next
  case (Cons doc docs)
  then obtain hints where "text_hints (input_text opts (snd doc)) = Inr hints"
    by auto
  from loop_body_succeeds [OF this] obtain st1 where "loop_body opts doc st = Inr st1"
    by blast
  moreover from Cons obtain st' where "analysis_loop opts docs st1 = Inr st'"
    by fastforce
  ultimately show ?case by simp
qed

lemma analysis_loop_highlighted_docs_last:
  "analysis_loop opts (docs @ [doc]) st = Inr st' \<Longrightarrow>
   highlighted_docs st' (fst doc) = Some (text_markup (input_text opts (snd doc)))"
proof (induction docs arbitrary: st)
  case Nil
  then show ?case
    by (auto split: sum.splits dest: loop_body_highlighted_docs)
next
  case (Cons d docs)
  then show ?case
    by (auto split: sum.splits)
qed

lemma shown_markup_last:
  assumes "\<forall>d \<in> set (docs @ [doc]). \<exists>hints. text_hints (input_text opts (snd d)) = Inr hints"
  shows "shown_markup opts (docs @ [doc]) (fst doc) = Inr (Some (text_markup (input_text opts (snd doc))))"
proof -
  from analysis_loop_succeeds [OF assms] obtain st' where
    run: "analysis_loop opts (docs @ [doc]) initial_state = Inr st'"
    by blast
  from analysis_loop_highlighted_docs_last [OF run] run show ?thesis
    by (simp add: shown_markup_def)
qed

lemma dates_found_eq:
  assumes "\<forall>d \<in> set docs. \<exists>hints. text_hints (input_text opts (snd d)) = Inr hints"
  shows "dates_found opts docs =
    Inr (length (concat (map (\<lambda>doc. find_dates (input_text opts (snd doc))) docs)))"
proof -
  from analysis_loop_succeeds [OF assms] obtain st' where
    run: "analysis_loop opts docs initial_state = Inr st'"
    by blast
  from analysis_loop_all_dates [OF run] run show ?thesis
    by (simp add: dates_found_def initial_state_def)
qed

lemma distinct_find_dates: "distinct (find_dates t)"
  by (simp add: find_dates_def distinct_sorted_set)

lemma length_superset:
  assumes "distinct xs" "distinct ys" "set ys = insert s (set xs)"
  shows "length xs \<le> length ys"
proof -
  have "card (set xs) \<le> card (set ys)"
    using assms(3) by (intro card_mono) auto
  then show ?thesis
    using assms(1,2) by (simp add: distinct_card)
qed

lemma set_append_if: "set (append_if b h hs) = (if b then insert h (set hs) else set hs)"
  by (simp add: append_if_def)

lemma generate_risk_hints_Inl_bp:
  "bp_rule dis b = Inl e \<Longrightarrow> generate_risk_hints dis sy b h = Inl e"
  by (simp add: generate_risk_hints_def Let_def)

lemma generate_risk_hints_Inl_hr:
  "bp_rule dis b = Inr x \<Longrightarrow> any_hr_high h = Inl e \<Longrightarrow> generate_risk_hints dis sy b h = Inl e"
  by (simp add: generate_risk_hints_def Let_def)

lemma generate_risk_hints_Inr:
  "bp_rule dis b = Inr x \<Longrightarrow> any_hr_high h = Inr y \<Longrightarrow>
   generate_risk_hints dis sy b h =
     Inr (append_if (3 \<le> length sy) MultipleSymptoms
           (append_if (''diabetes'' \<in> set dis) DiabetesMonitor
             (append_if y ElevatedHeartRate
               (append_if x HighBloodPressure
                 (append_if (''shortness of breath'' \<in> set sy \<and> ''fever'' \<in> set sy)
                    RespiratoryInfection [])))))"
  by (simp add: generate_risk_hints_def Let_def)

section \<open>Concrete runs\<close>

lemma deidentify_dash_id_line:
  "deidentify_text ''ID-5\<newline>'' = ''ID-5\<newline>: [REDACTED]''"
  by (simp add: eval_defs)

lemma deidentify_dash_id_line_again:
  "deidentify_text ''ID-5\<newline>: [REDACTED]'' = ''ID-5: [REDACTED]\<newline>: [REDACTED]''"
  by (simp add: eval_defs)

lemma deidentify_name_line: "deidentify_text ''Name: Al'' = ''Patient Name: [REDACTED]''"
  by (simp add: eval_defs)

lemma deidentify_dash_id: "deidentify_text ''ID-5'' = ''ID-5: [REDACTED]''"
  by (simp add: eval_defs)

lemma deidentify_colon_id: "deidentify_text ''mrn: 5'' = ''mrn: [REDACTED]''"
  by (simp add: eval_defs)

lemma find_bp_no_colon: "find_bp ''BP 150/95'' = [''BP 150/95'']"
  by (simp add: eval_defs)

lemma find_hr_no_colon: "find_hr ''BP 150/95'' = []"
  by (simp add: eval_defs)

lemma diseases_no_colon: "keyword_search ''BP 150/95'' DISEASE_KEYWORDS = []"
  by (simp add: eval_defs)

lemma symptoms_no_colon: "keyword_search ''BP 150/95'' SYMPTOM_KEYWORDS = []"
  by (simp add: eval_defs)

lemma hints_no_colon: "generate_risk_hints [] [] [''BP 150/95''] [] = Inl ValueError"
  by (simp add: eval_defs)

lemma medications_other_case: "find_medications ''500Mg 10ML'' = []"
  by (simp add: eval_defs)

lemma medications_listed_case: "find_medications ''500mg 10mL'' = [''10mL'', ''500mg'']"
  by (simp add: eval_defs)

lemma symptoms_fevers: "keyword_search ''fevers'' SYMPTOM_KEYWORDS = [''fever'']"
  by (simp add: eval_defs)

lemma diseases_fevers: "keyword_search ''fevers'' DISEASE_KEYWORDS = []"
  by (simp add: eval_defs)

lemma medications_fevers: "find_medications ''fevers'' = []"
  by (simp add: eval_defs)

lemma highlight_fevers: "highlight ''fevers'' [] [''fever''] [] = legend @ ''<pre>fevers</pre>''"
  by (simp add: eval_defs)

lemma input_text_fever: "input_text default_options ''fever'' = ''fever''"
  by (simp add: input_text_def default_options_def eval_defs)

lemma input_text_cough: "input_text default_options ''cough'' = ''cough''"
  by (simp add: input_text_def default_options_def eval_defs)

lemma input_text_date: "input_text default_options ''1/2/24'' = ''1/2/24''"
  by (simp add: input_text_def default_options_def eval_defs)

lemma text_hints_fever: "text_hints ''fever'' = Inr []"
  by (simp add: text_hints_def eval_defs)

lemma text_hints_cough: "text_hints ''cough'' = Inr []"
  by (simp add: text_hints_def eval_defs)

lemma text_hints_date: "text_hints ''1/2/24'' = Inr []"
  by (simp add: text_hints_def eval_defs)

lemma find_dates_date: "find_dates ''1/2/24'' = [''1/2/24'']"
  by (simp add: eval_defs)

lemma text_markup_fever:
  "text_markup ''fever'' = legend @ ''<pre>'' @ span_open ''symptom'' @ ''fever'' @ span_close @ ''</pre>''"
  by (simp add: text_markup_def eval_defs)

lemma text_markup_cough:
  "text_markup ''cough'' = legend @ ''<pre>'' @ span_open ''symptom'' @ ''cough'' @ span_close @ ''</pre>''"
  by (simp add: text_markup_def eval_defs)

section \<open>Redaction applied twice\<close>

text \<open>
  C1. The claim is that \<open>deidentify_text (deidentify_text t) = deidentify_text t\<close> for every
  text. On the text \<open>ID-5\<close> followed by a newline the first application gives \<open>ID-5\<close>, a
  newline and \<open>: [REDACTED]\<close>, and the second application changes that text again: the
  identifier line is matched with the separator \<open>-\<close>, the match has no colon to split at,
  and the whole match (value and trailing newline included) is kept in front of the marker.
\<close>

theorem deidentify_twice_differs:
  "deidentify_text ''ID-5\<newline>'' = ''ID-5\<newline>: [REDACTED]''
   \<and> deidentify_text (deidentify_text ''ID-5\<newline>'') = ''ID-5: [REDACTED]\<newline>: [REDACTED]''
   \<and> deidentify_text (deidentify_text ''ID-5\<newline>'') \<noteq> deidentify_text ''ID-5\<newline>''"
  by (simp add: deidentify_dash_id_line deidentify_dash_id_line_again)

section \<open>Risk hints on a blood-pressure entry without a colon\<close>

text \<open>
  C2. The claim is that \<open>generate_risk_hints\<close> never raises on the matches of \<open>find_bp\<close> and
  \<open>find_hr\<close>. The text \<open>BP 150/95\<close> is a match of \<open>find_bp\<close>; stripping the label by
  splitting at the colon leaves \<open>BP 150\<close>, which \<open>int\<close> rejects, and the \<open>ValueError\<close>
  leaves \<open>generate_risk_hints\<close>.
\<close>

theorem risk_hints_raise_without_colon:
  "find_bp ''BP 150/95'' = [''BP 150/95'']
   \<and> generate_risk_hints (keyword_search ''BP 150/95'' DISEASE_KEYWORDS)
        (keyword_search ''BP 150/95'' SYMPTOM_KEYWORDS) (find_bp ''BP 150/95'')
        (find_hr ''BP 150/95'') = Inl ValueError"
  by (simp add: find_bp_no_colon find_hr_no_colon diseases_no_colon symptoms_no_colon hints_no_colon)

section \<open>One file name, two documents\<close>

text \<open>
  C3. The claim is that the outputs for a document depend on its text and the redaction
  flag only. The markup of a document is stored under its file name. With a second
  document of the same name in the batch, the markup shown for the file name is that of
  the second document, also under the first one.
\<close>

theorem markup_of_same_name_replaced:
  "shown_markup default_options [(''a.txt'', ''fever'')] ''a.txt''
     = Inr (Some (legend @ ''<pre>'' @ span_open ''symptom'' @ ''fever'' @ span_close @ ''</pre>''))
   \<and> shown_markup default_options [(''a.txt'', ''fever''), (''a.txt'', ''cough'')] ''a.txt''
     = Inr (Some (legend @ ''<pre>'' @ span_open ''symptom'' @ ''cough'' @ span_close @ ''</pre>''))"
proof -
  have one: "\<forall>d \<in> set ([] @ [(''a.txt'', ''fever'')]).
      \<exists>hints. text_hints (input_text default_options (snd d)) = Inr hints"
    by (simp add: input_text_fever text_hints_fever)
  have two: "\<forall>d \<in> set ([(''a.txt'', ''fever'')] @ [(''a.txt'', ''cough'')]).
      \<exists>hints. text_hints (input_text default_options (snd d)) = Inr hints"
    by (simp add: input_text_fever text_hints_fever input_text_cough text_hints_cough)
  from shown_markup_last [OF one] shown_markup_last [OF two] show ?thesis
    by (simp add: input_text_fever input_text_cough text_markup_fever text_markup_cough)
qed

section \<open>Labels kept by the redaction\<close>

text \<open>
  C5, as stated, fails twice. A line \<open>Name: Al\<close> becomes the fixed line
  \<open>Patient Name: [REDACTED]\<close>, whatever the spelling of its label; and the line \<open>ID-5\<close>,
  with the separator \<open>-\<close>, becomes \<open>ID-5: [REDACTED]\<close> and not \<open>ID: [REDACTED]\<close>.
\<close>

theorem label_not_kept_counterexample:
  "deidentify_text ''Name: Al'' = ''Patient Name: [REDACTED]''
   \<and> deidentify_text ''Name: Al'' \<noteq> ''Name: [REDACTED]''
   \<and> deidentify_text ''ID-5'' = ''ID-5: [REDACTED]''
   \<and> deidentify_text ''ID-5'' \<noteq> ''ID: [REDACTED]''"
  by (simp add: deidentify_name_line deidentify_dash_id)

section \<open>The number of dates found\<close>

text \<open>
  C6, as stated, fails: two documents which both hold the date \<open>1/2/24\<close> give
  "Dates Found" 2, while the union of their date sets has one element.
\<close>

theorem dates_found_counterexample:
  "dates_found default_options [(''a.txt'', ''1/2/24''), (''b.txt'', ''1/2/24'')] = Inr 2
   \<and> card (set (find_dates (input_text default_options ''1/2/24''))
           \<union> set (find_dates (input_text default_options ''1/2/24''))) = 1"
proof -
  have "\<forall>d \<in> set [(''a.txt'', ''1/2/24''), (''b.txt'', ''1/2/24'')].
      \<exists>hints. text_hints (input_text default_options (snd d)) = Inr hints"
    by (simp add: input_text_date text_hints_date)
  from dates_found_eq [OF this] show ?thesis
    by (simp add: input_text_date find_dates_date)
qed

text \<open>
  C6, amended. When the loop finishes, "Dates Found" is the sum, over the documents of the
  batch, of the number of distinct dates of each document: a date that appears in \<open>k\<close>
  documents is counted \<open>k\<close> times.
\<close>

theorem dates_found_sum_per_document:
  assumes "dates_found opts docs = Inr n"
  shows "n = (\<Sum>doc\<leftarrow>docs. card (set (find_dates (input_text opts (snd doc)))))"
proof -
  from assms obtain st' where run: "analysis_loop opts docs initial_state = Inr st'"
    and n: "n = length (all_dates st')"
    by (auto simp: dates_found_def split: sum.splits)
  have "length (concat (map (\<lambda>doc. find_dates (input_text opts (snd doc))) docs))
      = (\<Sum>doc\<leftarrow>docs. card (set (find_dates (input_text opts (snd doc)))))"
    by (simp add: length_concat comp_def distinct_card [OF distinct_find_dates])
  with analysis_loop_all_dates [OF run] n show ?thesis
    by (simp add: initial_state_def)
qed

theorem dates_found_sum_per_document_witness:
  "dates_found default_options [(''a.txt'', ''1/2/24''), (''b.txt'', ''1/2/24'')] = Inr 2
   \<and> (2::nat) = (\<Sum>doc\<leftarrow>[(''a.txt'', ''1/2/24''), (''b.txt'', ''1/2/24'')].
         card (set (find_dates (input_text default_options (snd doc)))))"
proof -
  have "\<forall>d \<in> set [(''a.txt'', ''1/2/24''), (''b.txt'', ''1/2/24'')].
      \<exists>hints. text_hints (input_text default_options (snd d)) = Inr hints"
    by (simp add: input_text_date text_hints_date)
  from dates_found_eq [OF this]
  have run: "dates_found default_options [(''a.txt'', ''1/2/24''), (''b.txt'', ''1/2/24'')] = Inr 2"
    by (simp add: input_text_date find_dates_date)
  from dates_found_sum_per_document [OF run] run show ?thesis
    by simp
qed

section \<open>Dosage units\<close>

text \<open>
  C7, as stated, fails: \<open>500Mg\<close> and \<open>10ML\<close> are not dosage tokens, since the pattern
  lists the spellings \<open>mg\<close>, \<open>MG\<close>, \<open>ml\<close> and \<open>mL\<close> and is matched case-sensitively.
\<close>

theorem dosage_other_case_counterexample:
  "find_medications ''500Mg 10ML'' = [] \<and> find_medications ''500mg 10mL'' = [''10mL'', ''500mg'']"
  by (simp add: medications_other_case medications_listed_case)

lemma is_digit_word: "is_digit c \<Longrightarrow> is_word c"
  by (simp add: is_word_def)

lemma dosage_units_eval:
  "\<forall>u \<in> set dosage_units. u \<noteq> [] \<and> \<not> is_digit (hd u) \<and> is_word (last u) \<and> (\<forall>c \<in> set u. is_word c)"
  by (simp add: dosage_units_def is_digit_def is_word_def is_upper_ascii_def is_lower_ascii_def code_def)

lemma dosage_unit_facts:
  assumes "u \<in> set dosage_units"
  shows "u \<noteq> []" and "\<not> is_digit (hd u)" and "is_word (last u)" and "\<forall>c \<in> set u. is_word c"
  using assms dosage_units_eval by blast+

lemma word_before_after: "word_before (after p w) = (if w = [] then word_before p else is_word (last w))"
  by (simp add: after_def word_before_def)

lemma word_before_None_after: "word_before (after None pre) = ends_with_word pre"
  by (simp add: after_def word_before_def ends_with_word_def)

lemma dosage_token_split:
  "dosage_token w \<longleftrightarrow> (\<exists>ds u. w = ds @ u \<and> ds \<noteq> [] \<and> (\<forall>c \<in> set ds. is_digit c) \<and> u \<in> set dosage_units)"
proof
  assume "dosage_token w"
  then show "\<exists>ds u. w = ds @ u \<and> ds \<noteq> [] \<and> (\<forall>c \<in> set ds. is_digit c) \<and> u \<in> set dosage_units"
    unfolding dosage_token_def
    by (intro exI [of _ "takeWhile is_digit w"] exI [of _ "dropWhile is_digit w"])
       (auto dest: set_takeWhileD)
next
  assume "\<exists>ds u. w = ds @ u \<and> ds \<noteq> [] \<and> (\<forall>c \<in> set ds. is_digit c) \<and> u \<in> set dosage_units"
  then obtain ds u where w: "w = ds @ u" "ds \<noteq> []" "\<forall>c \<in> set ds. is_digit c" "u \<in> set dosage_units"
    by blast
  from dosage_unit_facts [OF w(4)] have "u \<noteq> []" "\<not> is_digit (hd u)"
    by simp_all
  then have "takeWhile is_digit u = []" "dropWhile is_digit u = u"
    by (cases u; simp)+
  with w show "dosage_token w"
    by (simp add: dosage_token_def takeWhile_append2 dropWhile_append2)
qed

lemma dosage_token_word:
  assumes "dosage_token w"
  shows "w \<noteq> []" and "\<forall>c \<in> set w. is_word c" and "is_word (last w)" and "is_digit (hd w)"
proof -
  from assms obtain ds u where w: "w = ds @ u" "ds \<noteq> []" "\<forall>c \<in> set ds. is_digit c"
    "u \<in> set dosage_units"
    unfolding dosage_token_split by blast
  note u = dosage_unit_facts [OF w(4)]
  show "w \<noteq> []" using w by simp
  show "\<forall>c \<in> set w. is_word c" using w u(4) by (auto simp: is_digit_word)
  show "is_word (last w)" using w u(1,3) by simp
  show "is_digit (hd w)" using w by (cases ds) auto
qed


lemma takeWhile_digits_prefix:
  assumes "\<forall>c \<in> set ds. is_digit c"
  shows "length ds \<le> length (takeWhile is_digit (ds @ r))"
  using assms by (simp add: takeWhile_append2)

lemma dosage_states_raw:
  "(p', rest) \<in> set (rmatch DOSAGE_PATTERN (p, t)) \<longleftrightarrow> word_before p \<noteq> word_after t \<and>
      (\<exists>j u. j \<le> length (takeWhile is_digit t) \<and> 1 \<le> j \<and> u \<in> set dosage_units \<and>
           prefix u (drop j t) \<and> p' = after (after p (take j t)) u \<and>
           rest = drop (length u) (drop j t) \<and> word_before p' \<noteq> word_after rest)"
  (is "?L \<longleftrightarrow> ?R")
proof -
  let ?r3 = "Seq WordB Eps"
  let ?r2 = "Seq (alts (map lit dosage_units)) ?r3"
  let ?r1 = "Seq (Rep is_digit 1 None) ?r2"
  have pat: "DOSAGE_PATTERN = Seq WordB ?r1"
    by (simp add: DOSAGE_PATTERN_def seqs_def)
  have r3: "\<And>s a b. s \<in> set (rmatch ?r3 (a, b)) \<longleftrightarrow> s = (a, b) \<and> word_before a \<noteq> word_after b"
    by auto
  have r2: "\<And>s a b. s \<in> set (rmatch ?r2 (a, b)) \<longleftrightarrow>
      (\<exists>u \<in> set dosage_units. prefix u b \<and> s = (after a u, drop (length u) b)
         \<and> word_before (after a u) \<noteq> word_after (drop (length u) b))"
    unfolding in_rmatch_Seq [of _ "alts (map lit dosage_units)"] in_rmatch_alts_lit r3
    by blast
  have r1: "\<And>s a b. s \<in> set (rmatch ?r1 (a, b)) \<longleftrightarrow>
      (\<exists>j. j \<le> length (takeWhile is_digit b) \<and> 1 \<le> j \<and>
        (\<exists>u \<in> set dosage_units. prefix u (drop j b) \<and>
           s = (after (after a (take j b)) u, drop (length u) (drop j b))
           \<and> word_before (after (after a (take j b)) u) \<noteq> word_after (drop (length u) (drop j b))))"
    unfolding in_rmatch_Seq [of _ "Rep is_digit 1 None"] in_rmatch_Rep r2
    by blast
  have "?L \<longleftrightarrow> word_before p \<noteq> word_after t \<and> (p', rest) \<in> set (rmatch ?r1 (p, t))"
    unfolding pat by auto
  also have "\<dots> \<longleftrightarrow> ?R"
    unfolding r1 by blast
  finally show ?thesis .
qed


lemma dosage_states:
  "(p', rest) \<in> set (rmatch DOSAGE_PATTERN (p, t)) \<longleftrightarrow>
     (\<exists>w. t = w @ rest \<and> dosage_token w \<and> p' = Some (last w) \<and> \<not> word_before p \<and> \<not> word_after rest)"
  (is "?L \<longleftrightarrow> ?R")
proof
  assume ?L
  then obtain j u where j: "j \<le> length (takeWhile is_digit t)" "1 \<le> j"
    and u: "u \<in> set dosage_units" "prefix u (drop j t)"
    and wb: "word_before p' \<noteq> word_after rest" "word_before p \<noteq> word_after t"
    and eq: "p' = after (after p (take j t)) u" "rest = drop (length u) (drop j t)"
    unfolding dosage_states_raw by blast
  note uf = dosage_unit_facts [OF u(1)]
  let ?ds = "take j t"
  have ds: "\<forall>c \<in> set ?ds. is_digit c"
    using j(1) by (rule take_takeWhile_all)
  from j obtain c cs where t_eq: "t = c # cs"
    by (cases t) auto
  with j have hd: "is_digit c"
    by (auto split: if_splits)
  have dsne: "?ds \<noteq> []"
    using j(2) t_eq by auto
  from u(2) obtain z where z: "drop j t = u @ z"
    by (auto simp: prefix_def)
  then have rest: "rest = z"
    using eq(2) by simp
  have "t = ?ds @ drop j t"
    by simp
  then have t: "t = (?ds @ u) @ rest"
    using z rest by simp
  have tok: "dosage_token (?ds @ u)"
    unfolding dosage_token_split using ds dsne u(1) by blast
  have p': "p' = Some (last (?ds @ u))"
    using eq(1) uf(1) by (simp add: after_def)
  have "word_after t"
    using t_eq hd by (simp add: word_after_def is_digit_word)
  with wb(2) have nb: "\<not> word_before p"
    by simp
  have "word_before p'"
    using eq(1) uf(1,3) by (simp add: after_def word_before_def)
  with wb(1) have "\<not> word_after rest"
    by simp
  with t tok p' nb show ?R
    by blast
next
  assume ?R
  then obtain w where w: "t = w @ rest" "dosage_token w" "p' = Some (last w)"
    "\<not> word_before p" "\<not> word_after rest"
    by blast
  from w(2) obtain ds u where s: "w = ds @ u" "ds \<noteq> []" "\<forall>c \<in> set ds. is_digit c"
    "u \<in> set dosage_units"
    unfolding dosage_token_split by blast
  note uf = dosage_unit_facts [OF s(4)]
  let ?j = "length ds"
  have t: "t = ds @ u @ rest"
    using w(1) s(1) by simp
  have j: "?j \<le> length (takeWhile is_digit t)" "1 \<le> ?j"
    using s(2,3) t by (simp_all add: takeWhile_append2 Suc_le_eq)
  have tk: "take ?j t = ds" "drop ?j t = u @ rest"
    using t by simp_all
  from s(2) obtain d ds' where "ds = d # ds'"
    by (cases ds) auto
  with s(3) t have "word_after t"
    by (simp add: word_after_def is_digit_word)
  with w(4) have b1: "word_before p \<noteq> word_after t"
    by simp
  have p': "p' = after (after p (take ?j t)) u"
    using w(3) s(1) uf(1) by (simp add: tk after_def)
  have "word_before p'"
    using w(3) s(1) uf(1,3) by (simp add: word_before_def)
  with w(5) have b2: "word_before p' \<noteq> word_after rest"
    by simp
  have pre: "prefix u (drop ?j t)" and r: "rest = drop (length u) (drop ?j t)"
    by (simp_all add: tk)
  show ?L
    unfolding dosage_states_raw using b1 j s(4) pre p' r b2 by blast
qed

text \<open>A token followed by no word character is the whole run of word characters.\<close>

lemma token_is_word_run:
  assumes "t = w @ rest" "dosage_token w" "\<not> word_after rest"
  shows "w = takeWhile is_word t"
proof -
  have "\<forall>c \<in> set w. is_word c"
    using assms(2) by (rule dosage_token_word)
  moreover have "takeWhile is_word rest = []"
    using assms(3) by (cases rest) (simp_all add: word_after_def)
  ultimately show ?thesis
    using assms(1) by (simp add: takeWhile_append2)
qed

lemma match_at_dosage:
  "match_at DOSAGE_PATTERN p t =
     (if \<not> word_before p \<and> dosage_token (takeWhile is_word t)
        \<and> \<not> word_after (dropWhile is_word t)
      then Some (length (takeWhile is_word t)) else None)"
proof (cases "rmatch DOSAGE_PATTERN (p, t)")
  case Nil
  have "\<not> (\<not> word_before p \<and> dosage_token (takeWhile is_word t) \<and> \<not> word_after (dropWhile is_word t))"
  proof
    assume a: "\<not> word_before p \<and> dosage_token (takeWhile is_word t) \<and> \<not> word_after (dropWhile is_word t)"
    have "t = takeWhile is_word t @ dropWhile is_word t"
      by simp
    with a have "(Some (last (takeWhile is_word t)), dropWhile is_word t) \<in> set (rmatch DOSAGE_PATTERN (p, t))"
      unfolding dosage_states by blast
    with Nil show False by simp
  qed
  with Nil show ?thesis
    by (simp add: match_at_def)
next
  case (Cons s ss)
  obtain p' rest where s: "s = (p', rest)"
    by (cases s)
  with Cons have "(p', rest) \<in> set (rmatch DOSAGE_PATTERN (p, t))"
    by simp
  then obtain w where w: "t = w @ rest" "dosage_token w" "\<not> word_before p" "\<not> word_after rest"
    unfolding dosage_states by blast
  have run: "w = takeWhile is_word t"
    using w(1,2,4) by (rule token_is_word_run)
  with w(1) have rest: "rest = dropWhile is_word t"
    by (metis append_same_eq takeWhile_dropWhile_id same_append_eq)
  have "length t = length w + length rest"
    using w(1) by simp
  then have len: "length t - length rest = length (takeWhile is_word t)"
    using run by simp
  have cond: "\<not> word_before p \<and> dosage_token (takeWhile is_word t)
      \<and> \<not> word_after (dropWhile is_word t)"
    using w(2,3,4) run rest by simp
  have "match_at DOSAGE_PATTERN p t = Some (length t - length rest)"
    unfolding match_at_def Cons s by simp
  with len cond show ?thesis
    by simp
qed


lemma occurrences_Nil: "occurrences p [] = {}"
  by (auto simp: occurrences_def dest: dosage_token_word(1))

lemma occurrences_no_match:
  assumes "match_at DOSAGE_PATTERN p (c # cs) = None"
  shows "occurrences p (c # cs) = occurrences (Some c) cs"
proof (intro set_eqI iffI)
  fix w assume "w \<in> occurrences p (c # cs)"
  then obtain pre post where o: "c # cs = pre @ w @ post" "dosage_token w"
    "\<not> word_before (after p pre)" "\<not> word_after post"
    unfolding occurrences_def by blast
  show "w \<in> occurrences (Some c) cs"
  proof (cases pre)
    case Nil
    with o have t: "c # cs = w @ post" and nb: "\<not> word_before p"
      by simp_all
    have run: "w = takeWhile is_word (c # cs)"
      using t o(2,4) by (rule token_is_word_run)
    then have "post = dropWhile is_word (c # cs)"
      using t by (metis same_append_eq takeWhile_dropWhile_id)
    with run o(2,4) nb have "match_at DOSAGE_PATTERN p (c # cs) \<noteq> None"
      unfolding match_at_dosage by simp
    with assms show ?thesis by simp
  next
    case (Cons d pre')
    with o have "cs = pre' @ w @ post" "\<not> word_before (after (Some c) pre')"
      by simp_all
    with o(2,4) show ?thesis
      unfolding occurrences_def by blast
  qed
next
  fix w assume "w \<in> occurrences (Some c) cs"
  then obtain pre post where o: "cs = pre @ w @ post" "dosage_token w"
    "\<not> word_before (after (Some c) pre)" "\<not> word_after post"
    unfolding occurrences_def by blast
  then have "c # cs = (c # pre) @ w @ post" "\<not> word_before (after p (c # pre))"
    by simp_all
  with o(2,4) show "w \<in> occurrences p (c # cs)"
    unfolding occurrences_def by blast
qed

lemma occurrences_match:
  assumes "match_at DOSAGE_PATTERN p t = Some n"
  shows "occurrences p t = insert (take n t) (occurrences (Some (last (take n t))) (drop n t))"
proof -
  let ?run = "takeWhile is_word t" and ?rest = "dropWhile is_word t"
  from assms have m: "\<not> word_before p" "dosage_token ?run" "\<not> word_after ?rest"
    and n: "n = length ?run"
    unfolding match_at_dosage by (auto split: if_splits)
  have tk: "take n t = ?run" "drop n t = ?rest"
    unfolding n by (metis append_eq_conv_conj takeWhile_dropWhile_id)+
  note rw = dosage_token_word [OF m(2)]
  have t: "t = ?run @ ?rest"
    by simp
  show ?thesis
    unfolding tk
  proof (intro set_eqI iffI)
    fix w assume "w \<in> occurrences p t"
    then obtain pre post where o: "t = pre @ w @ post" "dosage_token w"
      "\<not> word_before (after p pre)" "\<not> word_after post"
      unfolding occurrences_def by blast
    show "w \<in> insert ?run (occurrences (Some (last ?run)) ?rest)"
    proof (cases "pre = []")
      case True
      with o have "t = w @ post" by simp
      then have "w = ?run"
        using o(2,4) by (rule token_is_word_run)
      then show ?thesis by simp
    next
      case False
      with o(3) have nw: "\<not> is_word (last pre)"
        by (simp add: after_def word_before_def)
      have "\<not> length pre \<le> length ?run"
      proof
        assume le: "length pre \<le> length ?run"
        have "pre = take (length pre) t"
          using o(1) by simp
        also have "\<dots> = take (length pre) ?run"
          using le by (metis t take_append diff_is_0_eq take_0 append_Nil2)
        finally have "set pre \<subseteq> set ?run"
          by (metis set_take_subset)
        with False have "last pre \<in> set ?run"
          by (meson last_in_set subsetD)
        with rw(2) nw show False
          by blast
      qed
      then have "length ?run < length pre"
        by simp
      have "?run @ ?rest = pre @ w @ post"
        using o(1) by simp
      then obtain pre' where pre': "pre = ?run @ pre'" "?rest = pre' @ w @ post"
        using \<open>length ?run < length pre\<close>
        by (metis (no_types, lifting) append_eq_append_conv_if append_take_drop_id less_imp_le_nat)
      with \<open>length ?run < length pre\<close> have "pre' \<noteq> []"
        by auto
      then have "after (Some (last ?run)) pre' = after p pre"
        using pre'(1) by (simp add: after_def)
      with o(2,3,4) pre'(2) have "w \<in> occurrences (Some (last ?run)) ?rest"
        unfolding occurrences_def by (intro CollectI exI [of _ pre'] exI [of _ post]) simp
      then show ?thesis by simp
    qed
  next
    fix w assume "w \<in> insert ?run (occurrences (Some (last ?run)) ?rest)"
    then consider "w = ?run" | "w \<in> occurrences (Some (last ?run)) ?rest"
      by blast
    then show "w \<in> occurrences p t"
    proof cases
      case 1
      have "t = [] @ w @ ?rest"
        using 1 by simp
      with 1 m show ?thesis
        unfolding occurrences_def by (intro CollectI exI [of _ "[]"] exI [of _ ?rest]) simp
    next
      case 2
      then obtain pre post where o: "?rest = pre @ w @ post" "dosage_token w"
        "\<not> word_before (after (Some (last ?run)) pre)" "\<not> word_after post"
        unfolding occurrences_def by blast
      have "pre \<noteq> []"
        using o(3) rw(3) by (auto simp: word_before_def)
      then have a: "after p (?run @ pre) = after (Some (last ?run)) pre"
        by (simp add: after_def)
      have "t = (?run @ pre) @ w @ post"
        using o(1) by (metis append_assoc t)
      with a o(2,3,4) show ?thesis
        unfolding occurrences_def by (intro CollectI exI [of _ "?run @ pre"] exI [of _ post]) simp
    qed
  qed
qed

lemma set_findall_dosage: "set (findall_from DOSAGE_PATTERN p t) = occurrences p t"
proof (induction DOSAGE_PATTERN p t rule: findall_from.induct)
  case (1 prev)
  have "match_at DOSAGE_PATTERN prev [] = None"
    unfolding match_at_dosage using dosage_token_word(1) by auto
  then show ?case
    by (simp add: occurrences_Nil)
next
  case (2 prev c cs)
  show ?case
  proof (cases "match_at DOSAGE_PATTERN prev (c # cs)")
    case None
    with 2(1) occurrences_no_match [OF None] show ?thesis
      by simp
  next
    case (Some n)
    then have tok: "dosage_token (takeWhile is_word (c # cs))"
      and n: "n = length (takeWhile is_word (c # cs))"
      unfolding match_at_dosage by (auto split: if_splits)
    from dosage_token_word(1) [OF tok] n have "n \<noteq> 0"
      by (simp del: takeWhile.simps)
    then obtain k where k: "n = Suc k"
      by (cases n) simp_all
    have d: "drop n (c # cs) = drop k cs"
      using k by simp
    from 2(3) [OF Some [unfolded k]] occurrences_match [OF Some] show ?thesis
      using Some k by (simp del: take_Suc_Cons)
  qed
qed

lemma set_fold_insert: "set (fold List.insert xs acc) = set xs \<union> set acc"
  by (induction xs arbitrary: acc) auto

text \<open>
  C7, amended. For every text, \<open>find_medications\<close> returns the sorted, duplicate-free list
  of (a) the medication keywords whose lower-case form is a substring of the lower-case
  text and (b) every substring between word boundaries that consists of one or more digits
  followed by a unit spelled exactly \<open>mg\<close>, \<open>MG\<close>, \<open>ml\<close>, \<open>mL\<close>, \<open>g\<close>, \<open>units\<close> or \<open>IU\<close>.
\<close>

theorem find_medications_characterised:
  "set (find_medications t) =
     {m \<in> set MEDICATION_KEYWORDS. sublist (lower m) (lower t)}
     \<union> {w. \<exists>pre post. t = pre @ w @ post \<and> dosage_token w \<and> \<not> ends_with_word pre \<and> \<not> word_after post}
   \<and> sorted (find_medications t) \<and> distinct (find_medications t)"
proof -
  have "set (re_findall DOSAGE_PATTERN t) =
      {w. \<exists>pre post. t = pre @ w @ post \<and> dosage_token w \<and> \<not> ends_with_word pre \<and> \<not> word_after post}"
    by (simp add: re_findall_def set_findall_dosage occurrences_def word_before_None_after)
  then show ?thesis
    by (auto simp: find_medications_def Let_def set_sorted_set sorted_sorted_set distinct_sorted_set
        set_fold_insert set_fold_add_found py_in_sublist)
qed

lemma dosage_token_500mg: "dosage_token ''500mg''"
  by (simp add: dosage_token_def dosage_units_def is_digit_def code_def)

theorem find_medications_characterised_witness:
  "''500mg'' \<in> set (find_medications ''take 500mg'')"
proof -
  have "''take 500mg'' = ''take '' @ ''500mg'' @ []"
    by simp
  moreover have "\<not> ends_with_word ''take ''"
    by (simp add: ends_with_word_def is_word_def is_digit_def is_upper_ascii_def
        is_lower_ascii_def code_def)
  moreover have "\<not> word_after []"
    by (simp add: word_after_def)
  ultimately have "\<exists>pre post. ''take 500mg'' = pre @ ''500mg'' @ post \<and> dosage_token ''500mg''
      \<and> \<not> ends_with_word pre \<and> \<not> word_after post"
    using dosage_token_500mg by blast
  with find_medications_characterised [of "''take 500mg''"] show ?thesis
    by blast
qed

section \<open>Adding a symptom keeps the hints\<close>

text \<open>
  C9. For symptom sets given as duplicate-free lists, adding a symptom \<open>s\<close> keeps every
  hint: when \<open>generate_risk_hints\<close> returns hints for the smaller set, it returns hints for
  the larger set and these contain the former; when it raises for the smaller set, it
  raises the same error for the larger one, so that no hint is lost either way.
\<close>

theorem hint_monotonicity:
  assumes "distinct sy" and "distinct sy'" and "set sy' = insert s (set sy)"
  shows "case generate_risk_hints dis sy b h of
           Inl e \<Rightarrow> generate_risk_hints dis sy' b h = Inl e
         | Inr hints \<Rightarrow>
             (\<exists>hints'. generate_risk_hints dis sy' b h = Inr hints'
                \<and> set hints \<subseteq> set hints')"
proof (cases "bp_rule dis b")
  case (Inl e)
  then show ?thesis by (simp add: generate_risk_hints_Inl_bp)
next
  case bp: (Inr x)
  show ?thesis
  proof (cases "any_hr_high h")
    case (Inl e)
    with bp show ?thesis by (simp add: generate_risk_hints_Inl_hr)
  next
    case (Inr y)
    have len: "length sy \<le> length sy'"
      using assms by (rule length_superset)
    then have "3 \<le> length sy \<Longrightarrow> 3 \<le> length sy'"
      by simp
    with bp Inr assms(3) show ?thesis
      by (auto simp: generate_risk_hints_Inr set_append_if)
  qed
qed

lemma hints_two_symptoms:
  "generate_risk_hints [''diabetes''] [''cough'', ''fever''] [''BP: 150/95''] [''HR: 110'']
     = Inr [HighBloodPressure, ElevatedHeartRate, DiabetesMonitor]"
  by (simp add: eval_defs)

lemma hints_three_symptoms:
  "generate_risk_hints [''diabetes''] [''cough'', ''fever'', ''shortness of breath'']
     [''BP: 150/95''] [''HR: 110'']
     = Inr [RespiratoryInfection, HighBloodPressure, ElevatedHeartRate, DiabetesMonitor,
            MultipleSymptoms]"
  by (simp add: eval_defs)

theorem hint_monotonicity_witness:
  "distinct [''cough'', ''fever''] \<and> distinct [''cough'', ''fever'', ''shortness of breath'']
   \<and> set [''cough'', ''fever'', ''shortness of breath'']
       = insert ''shortness of breath'' (set [''cough'', ''fever''])
   \<and> generate_risk_hints [''diabetes''] [''cough'', ''fever''] [''BP: 150/95''] [''HR: 110'']
       = Inr [HighBloodPressure, ElevatedHeartRate, DiabetesMonitor]
   \<and> (\<exists>hints'. generate_risk_hints [''diabetes''] [''cough'', ''fever'', ''shortness of breath'']
          [''BP: 150/95''] [''HR: 110''] = Inr hints'
        \<and> set [HighBloodPressure, ElevatedHeartRate, DiabetesMonitor] \<subseteq> set hints')"
proof -
  have d1: "distinct [''cough'', ''fever'']"
    by simp
  have d2: "distinct [''cough'', ''fever'', ''shortness of breath'']"
    by simp
  have s: "set [''cough'', ''fever'', ''shortness of breath'']
       = insert ''shortness of breath'' (set [''cough'', ''fever''])"
    by auto
  from hint_monotonicity [OF d1 d2 s, of "[''diabetes'']" "[''BP: 150/95'']" "[''HR: 110'']"]
  show ?thesis
    using d1 d2 s by (simp add: hints_two_symptoms)
qed

section \<open>A listed term that is not highlighted\<close>

text \<open>
  C10. On the text \<open>fevers\<close> the keyword search reports the symptom \<open>fever\<close>, a substring
  of the text, while the highlighting, which looks for \<open>fever\<close> between word boundaries,
  wraps nothing: the markup holds the text as it is, with no marker.
\<close>

theorem listed_term_not_highlighted:
  "''fever'' \<in> set (keyword_search ''fevers'' SYMPTOM_KEYWORDS)
   \<and> highlight ''fevers'' (keyword_search ''fevers'' DISEASE_KEYWORDS)
        (keyword_search ''fevers'' SYMPTOM_KEYWORDS) (find_medications ''fevers'')
      = legend @ ''<pre>fevers</pre>''"
  by (simp add: symptoms_fevers diseases_fevers medications_fevers highlight_fevers)

end
